theory Spec2Isabelle
  imports Main
begin


section \<open>Python values used by termtosvg/anim.py\<close>

text \<open>
  Python strings are modelled as \<^typ>\<open>string\<close>; one \<^typ>\<open>char\<close> stands for one code
  point below 256, so that \<open>len\<close> is \<^const>\<open>length\<close>. Python integers are \<^typ>\<open>int\<close>.
  Every exception the module can raise is a value of \<open>error\<close>; a function that can raise
  returns \<open>error + 'a\<close> with \<open>Inl\<close> for the exception.
\<close>

text \<open>One constructor for each place where the module raises \<open>TemplateError\<close>.\<close>

datatype template_problem =
    InvalidTemplate
  | MissingTemplateSettings
  | MissingScreenGeometry
  | InvalidScreenGeometry
  | MissingViewBox
  | NotInUserUnits string
  | ScreenNotFound
  | MissingGeneratedStyle

datatype error =
    KeyError
  | ValueError
  | AttributeError
  | AssertionError
  | StopIteration
  | TemplateError template_problem

subsection \<open>\<open>str(n)\<close> for integers\<close>

definition digit_char :: "nat \<Rightarrow> char" where
  "digit_char d = ''0123456789'' ! d"

fun str_nat :: "nat \<Rightarrow> string" where
  "str_nat n = (if n < 10 then [digit_char n] else str_nat (n div 10) @ [digit_char (n mod 10)])"

declare str_nat.simps [simp del]

definition str_int :: "int \<Rightarrow> string" where
  "str_int i = (if i < 0 then CHR ''-'' # str_nat (nat (- i)) else str_nat (nat i))"

subsection \<open>\<open>int(s)\<close> and \<open>int(s, 16)\<close>\<close>

text \<open>
  \<open>int\<close> strips white space, reads an optional sign, for base 16 an optional \<open>0x\<close>
  prefix, and then digits that single underscores may separate. \<open>None\<close> stands for the
  \<open>ValueError\<close> it raises on anything else. The white space that \<open>int\<close> strips is not
  that of \<open>str.isspace\<close>: the separators \<open>0x1C\<close> to \<open>0x1F\<close> are not stripped, and
  \<open>int\<close> raises on them.
\<close>

definition py_isspace :: "char \<Rightarrow> bool" where
  "py_isspace c = ((of_char c :: nat) \<in> set [9, 10, 11, 12, 13, 28, 29, 30, 31, 32, 133, 160])"

definition int_isspace :: "char \<Rightarrow> bool" where
  "int_isspace c = ((of_char c :: nat) \<in> set [9, 10, 11, 12, 13, 32, 133, 160])"

definition int_strip :: "string \<Rightarrow> string" where
  "int_strip s = rev (dropWhile int_isspace (rev (dropWhile int_isspace s)))"

definition digit_value :: "char \<Rightarrow> nat option" where
  "digit_value c =
     (let n = (of_char c :: nat) in
      if 48 \<le> n \<and> n \<le> 57 then Some (n - 48)
      else if 97 \<le> n \<and> n \<le> 122 then Some (n - 87)
      else if 65 \<le> n \<and> n \<le> 90 then Some (n - 55)
      else None)"

fun py_digits :: "nat \<Rightarrow> bool \<Rightarrow> nat \<Rightarrow> string \<Rightarrow> nat option" where
  "py_digits b prev acc [] = (if prev then Some acc else None)"
| "py_digits b prev acc (c # cs) =
     (if c = CHR ''_'' then (if prev then py_digits b False acc cs else None)
      else case digit_value c of
             None \<Rightarrow> None
           | Some d \<Rightarrow> if d < b then py_digits b True (acc * b + d) cs else None)"

definition strip_sign :: "string \<Rightarrow> bool \<times> string" where
  "strip_sign s =
     (case s of
        [] \<Rightarrow> (False, s)
      | c # r \<Rightarrow> if c = CHR ''-'' then (True, r) else if c = CHR ''+'' then (False, r) else (False, s))"

definition strip_prefix16 :: "string \<Rightarrow> string" where
  "strip_prefix16 s =
     (case s of
        c # d # r \<Rightarrow>
          if c = CHR ''0'' \<and> (d = CHR ''x'' \<or> d = CHR ''X'')
          then (case r of u # r' \<Rightarrow> if u = CHR ''_'' then r' else r | [] \<Rightarrow> r)
          else s
      | _ \<Rightarrow> s)"

definition py_int :: "nat \<Rightarrow> string \<Rightarrow> int option" where
  "py_int b s =
     (let (neg, u) = strip_sign (int_strip s);
          v = (if b = 16 then strip_prefix16 u else u)
      in map_option (\<lambda>n. if neg then - int n else int n) (py_digits b False 0 v))"

subsection \<open>Dictionaries that keep insertion order\<close>

text \<open>
  A \<open>dict\<close> whose order matters is an association list with distinct keys.
  \<open>dict_set\<close> is \<open>d[k] = v\<close>: an existing key keeps its place, a new key goes last.
\<close>

fun dict_set :: "('k \<times> 'v) list \<Rightarrow> 'k \<Rightarrow> 'v \<Rightarrow> ('k \<times> 'v) list" where
  "dict_set [] k v = [(k, v)]"
| "dict_set ((k', v') # d) k v = (if k' = k then (k, v) # d else (k', v') # dict_set d k v)"

definition dict_get :: "('k \<times> 'v) list \<Rightarrow> 'k \<Rightarrow> error + 'v" where
  "dict_get d k = (case map_of d k of None \<Rightarrow> Inl KeyError | Some v \<Rightarrow> Inr v)"


section \<open>Character cells and colour resolution\<close>

definition COLORS :: "string list" where
  "COLORS = [''black'', ''red'', ''green'', ''brown'', ''blue'', ''magenta'', ''cyan'', ''white'']"

definition BRIGHTCOLORS :: "string list" where
  "BRIGHTCOLORS = map (\<lambda>color. ''bright'' @ color) COLORS"

definition ALL_COLORS :: "string list" where
  "ALL_COLORS = COLORS @ BRIGHTCOLORS"

definition LAST_ANIMATION_ID :: string where
  "LAST_ANIMATION_ID = ''anim_last''"


definition XLINK_NS :: string where
  "XLINK_NS = ''http://www.w3.org/1999/xlink''"


text \<open>The fields of a \<open>pyte.screens.Char\<close> that \<open>from_pyte\<close> reads.\<close>

record Char =
  data :: string
  fg :: string
  bg :: string
  bold :: bool
  reverse :: bool

record CharacterCell =
  cell_text :: string
  color :: string
  background_color :: string
  cell_bold :: bool

text \<open>
  A palette is a \<open>Dict[Any, str]\<close>: its keys are colour numbers and the two strings
  \<open>foreground\<close> and \<open>background\<close>.
\<close>

datatype palette_key = PInt int | PStr string

type_synonym palette = "palette_key \<rightharpoonup> string"

definition palette_get :: "palette \<Rightarrow> palette_key \<Rightarrow> error + string" where
  "palette_get palette k = (case palette k of None \<Rightarrow> Inl KeyError | Some v \<Rightarrow> Inr v)"

text \<open>\<open>color_numbers = dict(zip(ALL_COLORS, range(len(ALL_COLORS))))\<close>\<close>

definition color_numbers :: "string \<rightharpoonup> int" where
  "color_numbers = map_of (zip ALL_COLORS (map int [0 ..< length ALL_COLORS]))"

definition startswith :: "string \<Rightarrow> string \<Rightarrow> bool" where
  "startswith s p = (take (length p) s = p)"

text \<open>Lines 53 to 77 of the source: the text colour.\<close>

definition text_color_of :: "Char \<Rightarrow> palette \<Rightarrow> error + string" where
  "text_color_of char palette =
     (if fg char = ''default'' then palette_get palette (PStr ''foreground'')
      else
        let search_color =
              (if bold char \<and> \<not> startswith (fg char) ''bright'' then ''bright'' @ fg char
               else fg char)
        in case color_numbers search_color of
             Some n \<Rightarrow>
               let color_number = (if PInt n \<in> dom palette then n else n mod 8)
               in palette_get palette (PInt color_number)
           | None \<Rightarrow>
               if length (fg char) = 6 then
                 (case py_int 16 (fg char) of
                    None \<Rightarrow> Inl ValueError
                  | Some _ \<Rightarrow> Inr (CHR ''#'' # fg char))
               else Inl ValueError)"

text \<open>Lines 79 to 90 of the source: the background colour.\<close>

definition background_color_of :: "Char \<Rightarrow> palette \<Rightarrow> error + string" where
  "background_color_of char palette =
     (if bg char = ''default'' then palette_get palette (PStr ''background'')
      else case color_numbers (bg char) of
             Some n \<Rightarrow> palette_get palette (PInt n)
           | None \<Rightarrow>
               if length (bg char) = 6 then
                 (case py_int 16 (bg char) of
                    None \<Rightarrow> Inl ValueError
                  | Some _ \<Rightarrow> Inr (CHR ''#'' # bg char))
               else Inl ValueError)"

definition from_pyte :: "Char \<Rightarrow> palette \<Rightarrow> error + CharacterCell" where
  "from_pyte char palette =
     (case text_color_of char palette of
        Inl e \<Rightarrow> Inl e
      | Inr tc \<Rightarrow>
          (case background_color_of char palette of
             Inl e \<Rightarrow> Inl e
           | Inr bc \<Rightarrow>
               let (tc', bc') = (if reverse char then (bc, tc) else (tc, bc))
               in Inr \<lparr>cell_text = data char, color = tc',
                        background_color = bc', cell_bold = bold char\<rparr>))"

text \<open>The two kinds of record of the input stream.\<close>

record CharacterCellConfig =
  width :: int
  height :: int
  cfg_text_color :: string
  cfg_background_color :: string

record CharacterCellLineEvent =
  row :: int
  line :: "(int \<times> CharacterCell) list"
  time :: int
  duration :: int

datatype CharacterCellRecord =
    Config CharacterCellConfig
  | LineEvent CharacterCellLineEvent

section \<open>Markup elements\<close>

text \<open>
  An \<open>lxml\<close> element: tag, attributes in insertion order, text and children. Tags of a
  namespace are written as \<open>lxml\<close> writes them, \<open>{namespace}name\<close>.
\<close>

datatype element =
  Element (tag: string) (attrib: "(string \<times> string) list") (elem_text: "string option")
    (children: "element list")

definition qname :: "string \<Rightarrow> string \<Rightarrow> string" where
  "qname ns name = ''{'' @ ns @ ''}'' @ name"

definition set_attrib :: "element \<Rightarrow> string \<Rightarrow> string \<Rightarrow> element" where
  "set_attrib e k v = Element (tag e) (dict_set (attrib e) k v) (elem_text e) (children e)"


definition set_text :: "element \<Rightarrow> string \<Rightarrow> element" where
  "set_text e s = Element (tag e) (attrib e) (Some s) (children e)"

subsection \<open>Strings that \<open>lxml\<close> accepts\<close>

text \<open>
  \<open>lxml\<close> raises \<open>ValueError\<close> for an attribute value or a text that is not compatible
  with XML: a string with a control character other than tab, line feed and carriage
  return. \<open>etree.Element\<close> checks the values of the attributes that it is given (the tags
  and the attribute names of the module are literals), and an assignment to \<open>text\<close>
  checks the text. \<open>etree.CDATA\<close> checks its data in the same way and also raises
  \<open>ValueError\<close> when the data contains \<open>]]>\<close>.
\<close>

definition xml_char :: "char \<Rightarrow> bool" where
  "xml_char c = (let n = (of_char c :: nat) in n = 9 \<or> n = 10 \<or> n = 13 \<or> 32 \<le> n)"

definition xml_compatible :: "string \<Rightarrow> bool" where
  "xml_compatible s = list_all xml_char s"

definition etree_Element :: "string \<Rightarrow> (string \<times> string) list \<Rightarrow> error + element" where
  "etree_Element t attributes =
     (if list_all (\<lambda>(k, v). xml_compatible v) attributes
      then Inr (Element t attributes None [])
      else Inl ValueError)"

definition assign_text :: "element \<Rightarrow> string \<Rightarrow> error + element" where
  "assign_text e s = (if xml_compatible s then Inr (set_text e s) else Inl ValueError)"

fun has_infix :: "string \<Rightarrow> string \<Rightarrow> bool" where
  "has_infix p [] = (p = [])"
| "has_infix p (c # s) = (startswith (c # s) p \<or> has_infix p s)"

declare has_infix.simps [simp del]


text \<open>
  A list comprehension over calls that can raise: the results in order, or the first
  exception.
\<close>

fun collect :: "(error + 'a) list \<Rightarrow> error + 'a list" where
  "collect [] = Inr []"
| "collect (x # xs) =
     (case x of
        Inl e \<Rightarrow> Inl e
      | Inr v \<Rightarrow> (case collect xs of Inl e \<Rightarrow> Inl e | Inr vs \<Rightarrow> Inr (v # vs)))"

subsection \<open>\<open>etree.tostring\<close>\<close>

text \<open>
  The serialisation of an element without namespaces, which is all that
  \<open>make_animated_group\<close> serialises: ASCII output, other code points as character
  references. A carriage return is written as a character reference everywhere, a tab and
  a line feed in attribute values only.
\<close>

definition escape_char :: "bool \<Rightarrow> char \<Rightarrow> string" where
  "escape_char in_attribute c =
     (if c = CHR ''&'' then ''&amp;''
      else if c = CHR ''<'' then ''&lt;''
      else if c = CHR ''>'' then ''&gt;''
      else if in_attribute \<and> c = CHR 0x22 then ''&quot;''
      else if in_attribute \<and> (of_char c :: nat) \<in> set [9, 10] then
        ''&#'' @ str_nat (of_char c) @ '';''
      else if (of_char c :: nat) = 13 then ''&#13;''
      else if (of_char c :: nat) < 128 then [c]
      else ''&#'' @ str_nat (of_char c) @ '';'')"

definition escape :: "bool \<Rightarrow> string \<Rightarrow> string" where
  "escape in_attribute s = concat (map (escape_char in_attribute) s)"

definition attribute_str :: "string \<times> string \<Rightarrow> string" where
  "attribute_str kv = '' '' @ fst kv @ ''='' @ [CHR 0x22] @ escape True (snd kv) @ [CHR 0x22]"

fun tostring :: "element \<Rightarrow> string" where
  "tostring (Element t a x cs) =
     ''<'' @ t @ concat (map attribute_str a) @
     (if x = None \<and> cs = [] then ''/>''
      else ''>'' @ (case x of None \<Rightarrow> [] | Some s \<Rightarrow> escape False s) @
           concat (map tostring cs) @ ''</'' @ t @ ''>'')"

section \<open>Grouping consecutive cells\<close>

text \<open>
  \<open>ConsecutiveWithSameAttributes\<close> is a callable with state. Its three fields are
  \<open>None\<close> together (before the first call) or set together (after it), so the state is
  \<open>None\<close> or \<open>Some (group_index, last_index, last_key_attributes)\<close>. The parameter
  \<open>attributes\<close> reads the named attributes of a cell.
\<close>

type_synonym 'k consecutive = "(int \<times> int \<times> 'k) option"

fun consecutive_call ::
  "('a \<Rightarrow> 'k) \<Rightarrow> 'k consecutive \<Rightarrow> int \<times> 'a \<Rightarrow> 'k consecutive \<times> (int \<times> 'k)" where
  "consecutive_call attributes None (index, obj) =
     (Some (index, index, attributes obj), (index, attributes obj))"
| "consecutive_call attributes (Some (group_index, last_index, last_key_attributes)) (index, obj) =
     (let key_attributes = attributes obj;
          group_index' =
            (if last_index \<noteq> index - 1 \<or> last_key_attributes \<noteq> key_attributes then index
             else group_index)
      in (Some (group_index', index, key_attributes), (group_index', key_attributes)))"

text \<open>The keys that \<open>groupby\<close> obtains, calling the key once for each element in turn.\<close>

fun consecutive_keys ::
  "('a \<Rightarrow> 'k) \<Rightarrow> 'k consecutive \<Rightarrow> (int \<times> 'a) list \<Rightarrow> ((int \<times> 'k) \<times> (int \<times> 'a)) list" where
  "consecutive_keys attributes self [] = []"
| "consecutive_keys attributes self (x # xs) =
     (case consecutive_call attributes self x of
        (self', k) \<Rightarrow> (k, x) # consecutive_keys attributes self' xs)"

text \<open>\<open>itertools.groupby\<close> on elements paired with their keys.\<close>

fun groupby :: "('k \<times> 'a) list \<Rightarrow> ('k \<times> 'a list) list" where
  "groupby [] = []"
| "groupby ((k, x) # kxs) =
     (case groupby kxs of
        [] \<Rightarrow> [(k, [x])]
      | (k', g) # gs \<Rightarrow> if k = k' then (k, x # g) # gs else (k, [x]) # (k', g) # gs)"

text \<open>\<open>sorted(screen_line.items())\<close>: a line is a dictionary from columns to cells.\<close>

definition sorted_items :: "(int \<times> 'a) list \<Rightarrow> (int \<times> 'a) list" where
  "sorted_items screen_line = sort_key fst screen_line"

section \<open>Shapes\<close>

text \<open>
  \<open>make_rect_tag\<close> raises \<open>ValueError\<close> when the fill colour is not compatible with
  XML; the other attribute values are decimal numerals.
\<close>

definition make_rect_tag ::
  "int \<Rightarrow> int \<Rightarrow> int \<Rightarrow> int \<Rightarrow> int \<Rightarrow> string \<Rightarrow> error + element" where
  "make_rect_tag column len h cell_width cell_height bg_color =
     etree_Element ''rect''
       [(''x'', str_int (column * cell_width)),
        (''y'', str_int h),
        (''width'', str_int (len * cell_width)),
        (''height'', str_int cell_height),
        (''fill'', bg_color)]"

definition render_line_bg_colors ::
  "(int \<times> CharacterCell) list \<Rightarrow> int \<Rightarrow> int \<Rightarrow> int \<Rightarrow> string \<Rightarrow> error + element list" where
  "render_line_bg_colors screen_line h cell_height cell_width default_bg_color =
     (let non_default_bg_cells =
            filter (\<lambda>(column, cell). background_color cell \<noteq> default_bg_color)
              (sorted_items screen_line)
      in collect
           (map (\<lambda>((column, attributes), group).
                   make_rect_tag column (int (length group)) h cell_width cell_height attributes)
              (groupby (consecutive_keys background_color None non_default_bg_cells))))"

definition nbsp :: char where
  "nbsp = CHR 0xA0"

text \<open>
  \<open>make_text_tag\<close> raises \<open>ValueError\<close> when the colour or the text is not compatible
  with XML.
\<close>

definition make_text_tag :: "int \<Rightarrow> string \<times> bool \<Rightarrow> string \<Rightarrow> int \<Rightarrow> error + element" where
  "make_text_tag column attributes txt cell_width =
     (case etree_Element ''text''
             ([(''x'', str_int (column * cell_width)),
               (''textLength'', str_int (int (length txt) * cell_width)),
               (''lengthAdjust'', ''spacingAndGlyphs''),
               (''fill'', fst attributes)] @
              (if snd attributes then [(''font-weight'', ''bold'')] else [])) of
        Inl e \<Rightarrow> Inl e
      | Inr text_tag \<Rightarrow>
          assign_text text_tag (map (\<lambda>c. if c = CHR '' '' then nbsp else c) txt))"

definition render_characters ::
  "(int \<times> CharacterCell) list \<Rightarrow> int \<Rightarrow> error + element list" where
  "render_characters screen_line cell_width =
     collect
       (map (\<lambda>((column, attributes), group).
               make_text_tag column attributes (concat (map (\<lambda>(_, c). cell_text c) group))
                 cell_width)
          (groupby
             (consecutive_keys (\<lambda>c. (color c, cell_bold c)) None (sorted_items screen_line))))"

section \<open>The animation composer\<close>

text \<open>
  The definitions table maps the serialisation of a text group to the element registered
  for it, which carries the assigned \<open>id\<close>.
\<close>

type_synonym definitions = "(string \<times> element) list"


text \<open>
  Lines 283 to 293: find or create a definition for \<open>text_group_tag\<close>. The result is
  the group id and the new definitions. The assertion of line 291 compares a string with
  elements and cannot fail.
\<close>

definition find_or_create_definition ::
  "definitions \<Rightarrow> definitions \<Rightarrow> element \<Rightarrow> error + (string \<times> definitions)" where
  "find_or_create_definition defs new_definitions text_group_tag =
     (let text_group_tag_str = tostring text_group_tag in
      case map_of defs text_group_tag_str of
        Some d \<Rightarrow>
          (case dict_get (attrib d) ''id'' of
             Inl e \<Rightarrow> Inl e
           | Inr group_id \<Rightarrow> Inr (group_id, new_definitions))
      | None \<Rightarrow>
          (case map_of new_definitions text_group_tag_str of
             Some d \<Rightarrow>
               (case dict_get (attrib d) ''id'' of
                  Inl e \<Rightarrow> Inl e
                | Inr group_id \<Rightarrow> Inr (group_id, new_definitions))
           | None \<Rightarrow>
               let group_id =
                     ''g'' @ str_int (int (length defs) + int (length new_definitions) + 1)
               in Inr (group_id,
                       dict_set new_definitions text_group_tag_str
                         (set_attrib text_group_tag ''id'' group_id))))"

text \<open>
  The body of the loop over the records of a bucket (lines 268 to 301). The state is the
  list of children of the group so far and the new definitions. The values of the
  attributes of the \<open>use\<close> element are an id of the counter and a decimal numeral.
\<close>

definition animated_group_step ::
  "int \<Rightarrow> int \<Rightarrow> string \<Rightarrow> definitions \<Rightarrow> element list \<times> definitions \<Rightarrow>
   CharacterCellLineEvent \<Rightarrow> error + (element list \<times> definitions)" where
  "animated_group_step cell_height cell_width default_bg_color defs state event_record =
     (let (group_children, new_definitions) = state in
      case render_line_bg_colors (line event_record) (row event_record * cell_height)
             cell_height cell_width default_bg_color of
        Inl e \<Rightarrow> Inl e
      | Inr rect_tags \<Rightarrow>
     (case render_characters (line event_record) cell_width of
        Inl e \<Rightarrow> Inl e
      | Inr text_tags \<Rightarrow>
          let text_group_tag = Element ''g'' [] None text_tags
          in case find_or_create_definition defs new_definitions text_group_tag of
               Inl e \<Rightarrow> Inl e
             | Inr (group_id, new_definitions') \<Rightarrow>
                 let use_tag = Element ''use''
                       [(qname XLINK_NS ''href'', ''#'' @ group_id),
                        (''y'', str_int (row event_record * cell_height))] None []
                 in Inr (group_children @ rect_tags @ [use_tag], new_definitions')))"

fun animated_group_loop ::
  "int \<Rightarrow> int \<Rightarrow> string \<Rightarrow> definitions \<Rightarrow> element list \<times> definitions \<Rightarrow>
   CharacterCellLineEvent list \<Rightarrow> error + (element list \<times> definitions)" where
  "animated_group_loop cell_height cell_width default_bg_color defs state [] = Inr state"
| "animated_group_loop cell_height cell_width default_bg_color defs state (event_record # records) =
     (case animated_group_step cell_height cell_width default_bg_color defs state event_record of
        Inl e \<Rightarrow> Inl e
      | Inr state' \<Rightarrow>
          animated_group_loop cell_height cell_width default_bg_color defs state' records)"

definition begin_time_of :: "int \<Rightarrow> string" where
  "begin_time_of t =
     (if t = 0 then ''0ms; '' @ LAST_ANIMATION_ID @ ''.end''
      else str_int t @ ''ms; '' @ LAST_ANIMATION_ID @ ''.end+'' @ str_int t @ ''ms'')"

definition animation_tag :: "int \<Rightarrow> int \<Rightarrow> element" where
  "animation_tag t d =
     Element ''animate''
       [(''attributeName'', ''display''),
        (''from'', ''inline''),
        (''to'', ''inline''),
        (''begin'', begin_time_of t),
        (''dur'', str_int d @ ''ms''),
        (''fill'', ''remove'')] None []"

definition make_animated_group ::
  "CharacterCellLineEvent list \<Rightarrow> int \<Rightarrow> int \<Rightarrow> int \<Rightarrow> int \<Rightarrow> string \<Rightarrow> definitions \<Rightarrow>
   error + (element \<times> definitions)" where
  "make_animated_group records t d cell_height cell_width default_bg_color defs =
     (case animated_group_loop cell_height cell_width default_bg_color defs ([], []) records of
        Inl e \<Rightarrow> Inl e
      | Inr (group_children, new_definitions) \<Rightarrow>
          Inr (Element ''g'' [(''display'', ''none'')] None
                 (group_children @ [animation_tag t d]),
               new_definitions))"

section \<open>Paths in a document and \<open>find\<close>\<close>












section \<open>Scaling the template\<close>







section \<open>Rendering the animation\<close>







text \<open>
  The state of the loop of \<open>_render_animation\<close> over the buckets: the definitions table,
  the children of \<open>def_tag\<close>, the groups appended to the screen element, of which the
  last is \<open>last_animated_group\<close>, and \<open>animation_duration\<close>.
\<close>

record render_state =
  definitions :: definitions
  def_tag_children :: "element list"
  animated_groups :: "element list"
  animation_duration :: "int option"



text \<open>
  The records after the header up to the first that is not a line event: \<open>by_time\<close>
  raises \<open>AttributeError\<close> on a record without \<open>time\<close>, after the line events before
  it have been processed.
\<close>

fun line_events :: "CharacterCellRecord list \<Rightarrow> CharacterCellLineEvent list" where
  "line_events [] = []"
| "line_events (LineEvent ev # rs) = ev # line_events rs"
| "line_events (Config _ # rs) = []"





section \<open>The specification's rules, and inputs for the examples\<close>

fun index_of :: "'a \<Rightarrow> 'a list \<Rightarrow> nat" where
  "index_of x [] = 0"
| "index_of x (y # ys) = (if x = y then 0 else Suc (index_of x ys))"

text \<open>
  The specification's rule for a symbolic name: with bold set and a name that is not
  a bright variant, the name is promoted to its bright counterpart; the promoted name's
  number is used if it is a key of the palette, and the number modulo 8 otherwise.
\<close>

definition resolve_named_spec :: "palette \<Rightarrow> bool \<Rightarrow> string \<Rightarrow> error + string" where
  "resolve_named_spec palette b name =
     (let promoted = (if b \<and> name \<notin> set BRIGHTCOLORS then ''bright'' @ name else name);
          index = int (index_of promoted ALL_COLORS)
      in if PInt index \<in> dom palette then palette_get palette (PInt index)
         else palette_get palette (PInt (index mod 8)))"

definition palette8 :: palette where
  "palette8 = map_of [(PStr ''foreground'', ''fg''), (PStr ''background'', ''bg''),
     (PInt 0, ''c0''), (PInt 1, ''c1''), (PInt 2, ''c2''), (PInt 3, ''c3''),
     (PInt 4, ''c4''), (PInt 5, ''c5''), (PInt 6, ''c6''), (PInt 7, ''c7'')]"

definition palette16 :: palette where
  "palette16 = palette8 ++ map_of [(PInt 8, ''c8''), (PInt 9, ''c9''), (PInt 10, ''c10''),
     (PInt 11, ''c11''), (PInt 12, ''c12''), (PInt 13, ''c13''), (PInt 14, ''c14''),
     (PInt 15, ''c15'')]"

definition bold_red :: Char where
  "bold_red = \<lparr>data = ''x'', fg = ''red'', bg = ''red'', bold = True, reverse = False\<rparr>"

text \<open>
  The specification's grouping, as an explicit fold from the right: maximal runs of
  contiguous columns with identical attributes, each with its start column, its shared
  attributes and its elements.
\<close>

fun runs :: "('a \<Rightarrow> 'k) \<Rightarrow> (int \<times> 'a) list \<Rightarrow> ((int \<times> 'k) \<times> (int \<times> 'a) list) list" where
  "runs f [] = []"
| "runs f ((i, a) # xs) =
     (case runs f xs of
        [] \<Rightarrow> [((i, f a), [(i, a)])]
      | ((j, k), g) # rs \<Rightarrow>
          if j = i + 1 \<and> k = f a then ((i, k), (i, a) # g) # rs
          else ((i, f a), [(i, a)]) # ((j, k), g) # rs)"

definition mk_cell :: "string \<Rightarrow> string \<Rightarrow> string \<Rightarrow> bool \<Rightarrow> CharacterCell" where
  "mk_cell t c b w = \<lparr>cell_text = t, color = c, background_color = b, cell_bold = w\<rparr>"

text \<open>A line with a gap at column 3 and the default background \<open>black\<close> at column 2.\<close>

definition example_line :: "(int \<times> CharacterCell) list" where
  "example_line =
     [(4, mk_cell ''d'' ''white'' ''red'' False),
      (0, mk_cell ''a'' ''white'' ''red'' False),
      (1, mk_cell ''b'' ''white'' ''red'' False),
      (2, mk_cell ''c'' ''white'' ''black'' False)]"

definition example_left :: "(int \<times> CharacterCell) list" where
  "example_left =
     [(1, mk_cell ''b'' ''white'' ''red'' False),
      (0, mk_cell ''a'' ''white'' ''red'' False),
      (2, mk_cell ''c'' ''white'' ''black'' False)]"

definition example_right :: "(int \<times> CharacterCell) list" where
  "example_right = [(4, mk_cell ''d'' ''white'' ''red'' False)]"




definition example_events :: "CharacterCellLineEvent list" where
  "example_events =
     [\<lparr>row = 0, line = example_line, time = 0, duration = 100\<rparr>,
      \<lparr>row = 1, line = example_left, time = 0, duration = 100\<rparr>,
      \<lparr>row = 0, line = example_line, time = 100, duration = 50\<rparr>]"

text \<open>
  The activation triggers of a \<open>begin\<close> value: the value is a list separated by
  semicolons, and white space around an entry does not count.
\<close>

definition py_strip :: "string \<Rightarrow> string" where
  "py_strip s = rev (dropWhile py_isspace (rev (dropWhile py_isspace s)))"

fun split_on :: "char \<Rightarrow> string \<Rightarrow> string list" where
  "split_on c [] = [[]]"
| "split_on c (x # xs) =
     (if x = c then [] # split_on c xs
      else case split_on c xs of [] \<Rightarrow> [[x]] | w # ws \<Rightarrow> (x # w) # ws)"

definition begin_triggers :: "string \<Rightarrow> string list" where
  "begin_triggers s = map py_strip (split_on (CHR '';'') s)"






definition counter_id :: "nat \<Rightarrow> string" where
  "counter_id n = ''g'' @ str_int (int n + 1)"








section \<open>Colour resolution\<close>

lemma ALL_COLORS_eq:
  "ALL_COLORS = [''black'', ''red'', ''green'', ''brown'', ''blue'', ''magenta'', ''cyan'', ''white'',
     ''brightblack'', ''brightred'', ''brightgreen'', ''brightbrown'', ''brightblue'',
     ''brightmagenta'', ''brightcyan'', ''brightwhite'']"
  by (simp add: ALL_COLORS_def COLORS_def BRIGHTCOLORS_def)

lemma color_numbers_index:
  "color_numbers s = (if s \<in> set ALL_COLORS then Some (int (index_of s ALL_COLORS)) else None)"
  unfolding color_numbers_def ALL_COLORS_eq by (simp add: upt_rec)

lemma BRIGHTCOLORS_eq:
  "BRIGHTCOLORS = [''brightblack'', ''brightred'', ''brightgreen'', ''brightbrown'', ''brightblue'',
     ''brightmagenta'', ''brightcyan'', ''brightwhite'']"
  by (simp add: COLORS_def BRIGHTCOLORS_def)

lemma not_default: "\<forall>name\<in>set ALL_COLORS. name \<noteq> ''default''"
  unfolding ALL_COLORS_eq by simp

lemma bright_names:
  "\<forall>name\<in>set ALL_COLORS. startswith name ''bright'' \<longleftrightarrow> name \<in> set BRIGHTCOLORS"
  unfolding ALL_COLORS_eq BRIGHTCOLORS_eq by (simp add: startswith_def)

lemma promoted_in_table:
  "\<forall>name\<in>set ALL_COLORS. \<not> startswith name ''bright'' \<longrightarrow> ''bright'' @ name \<in> set ALL_COLORS"
  unfolding ALL_COLORS_eq by (simp add: startswith_def)


text \<open>
  Claim C3, amended. For a symbolic name among the 16 reserved names, the text colour
  follows the specification's rule: promotion to the bright name when bold is set and
  the name is not bright, then the promoted number if it is a key of the palette and the
  number modulo 8 otherwise. The background colour is never promoted: a name whose own
  number is a key of the palette resolves to the palette's entry for that number,
  whatever bold is.
\<close>

theorem named_color_resolution:
  assumes "name \<in> set ALL_COLORS"
  shows "(fg char = name \<longrightarrow>
            text_color_of char palette = resolve_named_spec palette (bold char) name) \<and>
         (bg char = name \<and> PInt (int (index_of name ALL_COLORS)) \<in> dom palette \<longrightarrow>
            background_color_of char palette = resolve_named_spec palette False name)"
proof (intro conjI impI)
  have nd: "name \<noteq> ''default''" using assms not_default by blast
  have br: "startswith name ''bright'' \<longleftrightarrow> name \<in> set BRIGHTCOLORS"
    using assms bright_names by blast
  {
    assume f: "fg char = name"
    show "text_color_of char palette = resolve_named_spec palette (bold char) name"
    proof (cases "bold char \<and> \<not> startswith name ''bright''")
      case True
      have p: "''bright'' @ name \<in> set ALL_COLORS"
        using assms True promoted_in_table by blast
      have "color_numbers (''bright'' @ name) = Some (int (index_of (''bright'' @ name) ALL_COLORS))"
        using p by (simp only: color_numbers_index if_True)
      then show ?thesis
        unfolding text_color_of_def resolve_named_spec_def Let_def
        using True f nd br by (simp only: if_True if_False simp_thms option.case split: if_split) blast
    next
      case False
      have "color_numbers name = Some (int (index_of name ALL_COLORS))"
        using assms by (simp only: color_numbers_index if_True)
      moreover have "\<not> (bold char \<and> name \<notin> set BRIGHTCOLORS)" using False br by blast
      ultimately show ?thesis
        unfolding text_color_of_def resolve_named_spec_def Let_def
        using False f nd by (simp only: if_True if_False simp_thms option.case split: if_split) blast
    qed
  }
  {
    assume b: "bg char = name \<and> PInt (int (index_of name ALL_COLORS)) \<in> dom palette"
    have "color_numbers name = Some (int (index_of name ALL_COLORS))"
      using assms by (simp only: color_numbers_index if_True)
    then show "background_color_of char palette = resolve_named_spec palette False name"
      unfolding background_color_of_def resolve_named_spec_def Let_def
      using b nd by (simp only: if_True if_False simp_thms option.case split: if_split)
  }
qed


lemma red_in: "''red'' \<in> set ALL_COLORS" unfolding ALL_COLORS_eq by simp

lemma idx_red: "index_of ''red'' ALL_COLORS = 1" "index_of ''brightred'' ALL_COLORS = 9"
  unfolding ALL_COLORS_eq by simp_all

lemma color_numbers_red:
  "color_numbers ''red'' = Some 1" "color_numbers ''brightred'' = Some 9"
  unfolding color_numbers_index ALL_COLORS_eq by simp_all

lemma spec_red8: "resolve_named_spec palette8 True ''red'' = Inr ''c1''"
  "resolve_named_spec palette8 False ''red'' = Inr ''c1''"
  by (simp_all add: resolve_named_spec_def BRIGHTCOLORS_eq idx_red palette8_def palette_get_def dom_def)

lemma spec_red16: "resolve_named_spec palette16 True ''red'' = Inr ''c9''"
  by (simp add: resolve_named_spec_def BRIGHTCOLORS_eq idx_red palette16_def palette8_def palette_get_def dom_def)

theorem named_color_resolution_witness:
  "''red'' \<in> set ALL_COLORS \<and> text_color_of bold_red palette8 = Inr ''c1'' \<and>
   background_color_of bold_red palette8 = Inr ''c1''"
proof -
  have d: "PInt (int (index_of ''red'' ALL_COLORS)) \<in> dom palette8"
    by (simp add: idx_red palette8_def dom_def)
  have f: "fg bold_red = ''red''" "bg bold_red = ''red''" "bold bold_red"
    by (simp_all add: bold_red_def)
  from named_color_resolution [OF red_in, of bold_red palette8] f d show ?thesis
    by (simp add: red_in spec_red8)
qed

text \<open>
  Claim C3 as stated fails for the background colour: with bold set, the background
  \<open>red\<close> resolves to entry 1 of a 16-colour palette, where the rule of the claim gives
  entry 9.
\<close>

theorem background_not_promoted_counterexample:
  "background_color_of bold_red palette16 \<noteq> resolve_named_spec palette16 (bold bold_red) (bg bold_red)"
proof -
  have "color_numbers ''red'' = Some 1"
    using red_in by (simp add: color_numbers_index idx_red)
  then have "background_color_of bold_red palette16 = Inr ''c1''"
    by (simp add: background_color_of_def bold_red_def palette16_def palette8_def palette_get_def)
  then show ?thesis by (simp add: bold_red_def spec_red16)
qed


lemma text_color_of_reverse [simp]: "text_color_of (c\<lparr>reverse := b\<rparr>) p = text_color_of c p"
  unfolding text_color_of_def by (simp cong: option.case_cong)
lemma background_color_of_reverse [simp]: "background_color_of (c\<lparr>reverse := b\<rparr>) p = background_color_of c p"
  unfolding background_color_of_def by (simp cong: option.case_cong)
text \<open>
  Claim C9. With \<open>reverse\<close> set, a cell resolves to the swap of the text colour and
  background colour it resolves to with \<open>reverse\<close> unset, everything else equal; an
  error is the same error.
\<close>

theorem from_pyte_reverse_swaps:
  "from_pyte (char\<lparr>reverse := True\<rparr>) palette =
     map_sum id (\<lambda>cell. cell\<lparr>color := background_color cell, background_color := color cell\<rparr>)
       (from_pyte (char\<lparr>reverse := False\<rparr>) palette)"
  by (simp add: from_pyte_def split: sum.splits)

theorem from_pyte_reverse_swaps_witness:
  "from_pyte (bold_red\<lparr>bg := ''default'', reverse := True\<rparr>) palette8 =
     Inr \<lparr>cell_text = ''x'', color = ''bg'', background_color = ''c1'', cell_bold = True\<rparr>"
proof -
  have t: "text_color_of (bold_red\<lparr>bg := ''default''\<rparr>) palette8 = Inr ''c1''"
    by (simp add: text_color_of_def bold_red_def startswith_def color_numbers_red palette8_def
        palette_get_def dom_def)
  have b: "background_color_of (bold_red\<lparr>bg := ''default''\<rparr>) palette8 = Inr ''bg''"
    by (simp add: background_color_of_def bold_red_def palette8_def palette_get_def)
  have "from_pyte (bold_red\<lparr>bg := ''default'', reverse := False\<rparr>) palette8 =
     Inr \<lparr>cell_text = ''x'', color = ''c1'', background_color = ''bg'', cell_bold = True\<rparr>"
    using t b by (simp add: from_pyte_def bold_red_def)
  with from_pyte_reverse_swaps [of "bold_red\<lparr>bg := ''default''\<rparr>" palette8]
  show ?thesis by simp
qed

section \<open>The grouping engine\<close>

text \<open>
  On a list sorted by strictly increasing column, \<open>groupby\<close> with the stateful key
  computes the maximal runs.
\<close>

lemma runs_Cons_hd:
  "\<exists>g rs. runs f ((i, a) # xs) = ((i, f a), (i, a) # g) # rs"
  by (auto split: list.splits)

lemma groupby_consecutive_state:
  assumes "sorted_wrt (<) (map fst xs)"
    and "\<forall>x\<in>set xs. l < fst x" and "g \<le> l"
  shows "groupby (consecutive_keys f (Some (g, l, k)) xs) =
     (case xs of
        [] \<Rightarrow> []
      | (i, a) # _ \<Rightarrow>
          if l = i - 1 \<and> k = f a
          then (case runs f xs of [] \<Rightarrow> [] | ((j, k'), grp) # rs \<Rightarrow> ((g, k'), grp) # rs)
          else runs f xs)"
  using assms
proof (induction xs arbitrary: g l k)
  case Nil
  then show ?case by simp
next
  case (Cons x xs)
  obtain i a where x: "x = (i, a)" by (cases x)
  define g' where "g' = (if l \<noteq> i - 1 \<or> k \<noteq> f a then i else g)"
  have call: "consecutive_call f (Some (g, l, k)) (i, a) = (Some (g', i, f a), (g', f a))"
    by (simp add: g'_def Let_def)
  have L: "consecutive_keys f (Some (g, l, k)) (x # xs) =
      ((g', f a), x) # consecutive_keys f (Some (g', i, f a)) xs"
    using x call by (simp del: consecutive_call.simps)
  have li: "l < i" using Cons.prems(2) x by simp
  have g'i: "g' \<le> i" using li Cons.prems(3) by (simp add: g'_def)
  have s: "sorted_wrt (<) (map fst xs)" and gt: "\<forall>y\<in>set xs. i < fst y"
    using Cons.prems(1) x by auto
  note IH = Cons.IH [OF s gt g'i, of "f a"]
  have goal: "groupby (consecutive_keys f (Some (g, l, k)) (x # xs)) =
     (case runs f (x # xs) of [] \<Rightarrow> [] | ((j, k'), grp) # rs \<Rightarrow> ((g', k'), grp) # rs)"
  proof (cases xs)
    case Nil
    then show ?thesis using x L by simp
  next
    case (Cons y ys)
    obtain i2 a2 where y: "y = (i2, a2)" by (cases y)
    have i2: "i < i2" using gt Cons y by simp
    obtain grp rs where r: "runs f xs = ((i2, f a2), grp) # rs"
      using runs_Cons_hd [of f i2 a2 ys] Cons y by auto
    have IH': "groupby (consecutive_keys f (Some (g', i, f a)) xs) =
        (if i = i2 - 1 \<and> f a = f a2
         then (case runs f xs of [] \<Rightarrow> [] | ((j, k'), grp) # rs \<Rightarrow> ((g', k'), grp) # rs)
         else runs f xs)"
      using IH unfolding Cons y by (simp only: list.case prod.case)
    show ?thesis
    proof (cases "i = i2 - 1 \<and> f a = f a2")
      case True
      have T: "groupby (consecutive_keys f (Some (g', i, f a)) xs) = ((g', f a), grp) # rs"
        unfolding IH' if_P [OF True] using True by (simp add: r)
      have R: "runs f (x # xs) = ((i, f a), x # grp) # rs"
        using x r True by simp
      show ?thesis unfolding L R by (simp add: T)
    next
      case False
      have T: "groupby (consecutive_keys f (Some (g', i, f a)) xs) = ((i2, f a2), grp) # rs"
        using False by (simp only: IH' r if_False)
      have ne: "(g', f a) \<noteq> (i2, f a2)" using False g'i i2 by auto
      have R: "runs f (x # xs) = ((i, f a), [x]) # ((i2, f a2), grp) # rs"
        using x r False by auto
      show ?thesis unfolding L R using ne by (simp add: T)
    qed
  qed
  obtain grp rs where R: "runs f (x # xs) = ((i, f a), grp) # rs"
    using runs_Cons_hd [of f i a xs] x by auto
  show ?case unfolding goal R using x by (simp add: g'_def)
qed

lemma groupby_consecutive_runs:
  assumes "sorted_wrt (<) (map fst xs)"
  shows "groupby (consecutive_keys f None xs) = runs f xs"
proof (cases xs)
  case Nil
  then show ?thesis by simp
next
  case (Cons x xs')
  obtain i a where x: "x = (i, a)" by (cases x)
  have s: "sorted_wrt (<) (map fst xs')" and gt: "\<forall>y\<in>set xs'. i < fst y"
    using assms Cons x by auto
  note st = groupby_consecutive_state [OF s gt order_refl, of f "f a"]
  have L: "consecutive_keys f None (x # xs') =
      ((i, f a), x) # consecutive_keys f (Some (i, i, f a)) xs'"
    using x by simp
  show ?thesis
  proof (cases xs')
    case Nil
    then show ?thesis using Cons x by simp
  next
    case (Cons y ys)
    obtain i2 a2 where y: "y = (i2, a2)" by (cases y)
    have i2: "i < i2" using gt Cons y by simp
    obtain grp rs where r: "runs f xs' = ((i2, f a2), grp) # rs"
      using runs_Cons_hd [of f i2 a2 ys] Cons y by auto
    have st': "groupby (consecutive_keys f (Some (i, i, f a)) xs') =
        (if i = i2 - 1 \<and> f a = f a2
         then (case runs f xs' of [] \<Rightarrow> [] | ((j, k'), grp) # rs \<Rightarrow> ((i, k'), grp) # rs)
         else runs f xs')"
      using st unfolding Cons y by (simp only: list.case prod.case)
    show ?thesis
    proof (cases "i = i2 - 1 \<and> f a = f a2")
      case True
      have T: "groupby (consecutive_keys f (Some (i, i, f a)) xs') = ((i, f a), grp) # rs"
        unfolding st' if_P [OF True] using True by (simp add: r)
      have R: "runs f (x # xs') = ((i, f a), x # grp) # rs"
        using x r True by simp
      show ?thesis unfolding \<open>xs = x # xs'\<close> L R by (simp add: T)
    next
      case False
      have T: "groupby (consecutive_keys f (Some (i, i, f a)) xs') = ((i2, f a2), grp) # rs"
        using False by (simp only: st' r if_False)
      have ne: "(i, f a) \<noteq> (i2, f a2)" using i2 by auto
      have R: "runs f (x # xs') = ((i, f a), [x]) # ((i2, f a2), grp) # rs"
        using x r False by auto
      show ?thesis unfolding \<open>xs = x # xs'\<close> L R using ne by (simp add: T)
    qed
  qed
qed


lemma runs_props:
  assumes "((j, k), grp) \<in> set (runs f xs)"
  shows "grp \<noteq> [] \<and> (\<forall>n < length grp. fst (grp ! n) = j + int n) \<and>
         (\<forall>x\<in>set grp. f (snd x) = k) \<and> set grp \<subseteq> set xs"
  using assms
proof (induction xs arbitrary: j k grp)
  case Nil
  then show ?case by simp
next
  case (Cons x xs)
  obtain i a where x: "x = (i, a)" by (cases x)
  show ?case
  proof (cases "runs f xs")
    case Nil
    then show ?thesis using Cons.prems x by simp
  next
    case (Cons r rs)
    obtain j0 k0 g0 where r: "r = ((j0, k0), g0)" by (cases r) auto
    have r_in: "((j0, k0), g0) \<in> set (runs f xs)" using Cons r by simp
    note P0 = Cons.IH [OF r_in]
    show ?thesis
    proof (cases "j0 = i + 1 \<and> k0 = f a")
      case True
      then have R: "runs f (x # xs) = ((i, k0), (i, a) # g0) # rs"
        using x Cons r by simp
      from Cons.prems R consider "(j, k, grp) = (i, k0, (i, a) # g0)" | "((j, k), grp) \<in> set rs"
        by auto
      then show ?thesis
      proof cases
        case 1
        have "\<forall>n < length ((i, a) # g0). fst (((i, a) # g0) ! n) = i + int n"
        proof (intro allI impI)
          fix n assume "n < length ((i, a) # g0)"
          then show "fst (((i, a) # g0) ! n) = i + int n"
            using P0 True by (cases n) auto
        qed
        then show ?thesis using 1 P0 True x by auto
      next
        case 2
        then have "((j, k), grp) \<in> set (runs f xs)" using Cons by simp
        from Cons.IH [OF this] show ?thesis by auto
      qed
    next
      case False
      then have R: "runs f (x # xs) = ((i, f a), [(i, a)]) # runs f xs"
        using x Cons r by auto
      from Cons.prems R consider "(j, k, grp) = (i, f a, [(i, a)])" | "((j, k), grp) \<in> set (runs f xs)"
        by auto
      then show ?thesis
      proof cases
        case 1
        then show ?thesis using x by simp
      next
        case 2
        from Cons.IH [OF this] show ?thesis by auto
      qed
    qed
  qed
qed

lemma runs_start_in:
  assumes "((j, k), grp) \<in> set (runs f xs)"
  shows "\<exists>a. (j, a) \<in> set xs \<and> f a = k"
proof -
  from runs_props [OF assms] have ne: "grp \<noteq> []" and c: "\<forall>n < length grp. fst (grp ! n) = j + int n"
    and k: "\<forall>x\<in>set grp. f (snd x) = k" and sub: "set grp \<subseteq> set xs" by auto
  from ne c have "fst (grp ! 0) = j" by (cases grp) auto
  moreover have "grp ! 0 \<in> set grp" using ne by (cases grp) auto
  ultimately show ?thesis using k sub by (metis prod.collapse subsetD)
qed

lemma runs_covers:
  assumes "((j, k), grp) \<in> set (runs f xs)" and "j \<le> c" and "c < j + int (length grp)"
  shows "\<exists>a. (c, a) \<in> set xs \<and> f a = k"
proof -
  from runs_props [OF assms(1)] have c: "\<forall>n < length grp. fst (grp ! n) = j + int n"
    and k: "\<forall>x\<in>set grp. f (snd x) = k" and sub: "set grp \<subseteq> set xs" by auto
  define n where "n = nat (c - j)"
  have n: "n < length grp" and cn: "c = j + int n" using assms(2,3) by (auto simp add: n_def)
  then have "fst (grp ! n) = c" using c by simp
  moreover have "grp ! n \<in> set grp" using n by simp
  ultimately show ?thesis using k sub by (metis prod.collapse subsetD)
qed

lemma runs_starts_sorted:
  assumes "sorted_wrt (<) (map fst xs)"
  shows "sorted_wrt (<) (map (\<lambda>r. fst (fst r)) (runs f xs))"
  using assms
proof (induction xs)
  case Nil
  then show ?case by simp
next
  case (Cons x xs)
  obtain i a where x: "x = (i, a)" by (cases x)
  have s: "sorted_wrt (<) (map fst xs)" and gt: "\<forall>y\<in>set xs. i < fst y"
    using Cons.prems x by auto
  have later: "i < fst (fst r)" if "r \<in> set (runs f xs)" for r
  proof -
    obtain j k g where r: "r = ((j, k), g)" by (cases r) auto
    from runs_start_in [of j k g f xs] that r obtain a' where "(j, a') \<in> set xs" by auto
    then show ?thesis using gt r by auto
  qed
  show ?case
  proof (cases "runs f xs")
    case Nil
    then show ?thesis using x by simp
  next
    case (Cons r rs)
    obtain j0 k0 g0 where r: "r = ((j0, k0), g0)" by (cases r) auto
    from Cons.IH [OF s] Cons r have srt: "(\<forall>q\<in>set rs. j0 < fst (fst q))"
      and srs: "sorted_wrt (<) (map (\<lambda>r. fst (fst r)) rs)" by auto
    have i0: "i < j0" using later [of r] Cons r by simp
    show ?thesis
    proof (cases "j0 = i + 1 \<and> k0 = f a")
      case True
      then have R: "runs f (x # xs) = ((i, k0), (i, a) # g0) # rs"
        using x Cons r by simp
      show ?thesis unfolding R using srt srs i0 by auto
    next
      case False
      then have R: "runs f (x # xs) = ((i, f a), [(i, a)]) # r # rs"
        using x Cons r by auto
      show ?thesis unfolding R using srt srs i0 r by auto
    qed
  qed
qed


lemma column_unique:
  fixes xs :: "(int \<times> 'a) list"
  assumes "sorted_wrt (<) (map fst xs)" and "(c, a) \<in> set xs" and "(c, b) \<in> set xs"
  shows "a = b"
proof -
  have "distinct (map fst xs)" using assms(1) by (rule strict_sorted_iff [THEN iffD1, THEN conjunct2])
  then show ?thesis using assms(2,3) by (rule eq_key_imp_eq_value)
qed

lemma runs_maximal:
  assumes "sorted_wrt (<) (map fst xs)" and "((j, k), grp) \<in> set (runs f xs)"
  shows "\<not> (\<exists>a. (j - 1, a) \<in> set xs \<and> f a = k) \<and>
         \<not> (\<exists>a. (j + int (length grp), a) \<in> set xs \<and> f a = k)"
  using assms
proof (induction xs arbitrary: j k grp)
  case Nil
  then show ?case by simp
next
  case (Cons x xs)
  obtain i a where x: "x = (i, a)" by (cases x)
  have s: "sorted_wrt (<) (map fst xs)" and gt: "\<forall>y\<in>set xs. i < fst y"
    using Cons.prems(1) x by auto
  have later: "i < j'" if "((j', k'), g') \<in> set (runs f xs)" for j' k' g'
  proof -
    from runs_start_in [OF that] obtain a' where "(j', a') \<in> set xs" by auto
    then show ?thesis using gt by auto
  qed
  show ?case
  proof (cases xs)
    case Nil
    then show ?thesis using Cons.prems(2) x by auto
  next
    case xs: (Cons y ys)
    obtain j0 ay where y: "y = (j0, ay)" by (cases y)
    obtain g0 rs where r: "runs f xs = ((j0, f ay), g0) # rs"
      using runs_Cons_hd [of f j0 ay ys] xs y by auto
    have r_in: "((j0, f ay), g0) \<in> set (runs f xs)" using r by simp
    have y_in: "(j0, ay) \<in> set xs" using xs y by simp
    have ij0: "i < j0" using gt y_in by auto
    have hd_min: "j0 \<le> c" if "(c, b) \<in> set xs" for c b
      using that s xs y by auto
    have at_next: "f b = f ay \<and> j0 = i + 1" if "(i + 1, b) \<in> set xs" for b
    proof -
      have "j0 = i + 1" using hd_min [OF that] ij0 by simp
      moreover then have "b = ay" using column_unique [OF s that] y_in by simp
      ultimately show ?thesis by simp
    qed
    show ?thesis
    proof (cases "j0 = i + 1 \<and> f ay = f a")
      case True
      then have R: "runs f (x # xs) = ((i, f ay), (i, a) # g0) # rs"
        using x r by simp
      from Cons.prems(2) R consider "(j, k, grp) = (i, f ay, (i, a) # g0)" | "((j, k), grp) \<in> set rs"
        by auto
      then show ?thesis
      proof cases
        case 1
        from Cons.IH [OF s r_in] have "\<not> (\<exists>a'. (j0 + int (length g0), a') \<in> set xs \<and> f a' = f ay)"
          by simp
        moreover have "j0 + int (length g0) = i + int (length ((i, a) # g0))" using True by simp
        ultimately show ?thesis using 1 x gt by auto
      next
        case 2
        then have in_xs: "((j, k), grp) \<in> set (runs f xs)" using r by simp
        have "j0 < j" using runs_starts_sorted [OF s, of f] r 2 by auto
        then have "i < j - 1" using ij0 by simp
        then show ?thesis using Cons.IH [OF s in_xs] x gt by auto
      qed
    next
      case False
      then have R: "runs f (x # xs) = ((i, f a), [(i, a)]) # runs f xs"
        using x r by auto
      from Cons.prems(2) R consider "(j, k, grp) = (i, f a, [(i, a)])" | "((j, k), grp) \<in> set (runs f xs)"
        by auto
      then show ?thesis
      proof cases
        case 1
        have "\<not> (\<exists>b. (i + 1, b) \<in> set xs \<and> f b = f a)" using at_next False by auto
        then show ?thesis using 1 x gt by auto
      next
        case 2
        have ij: "i < j" using later [OF 2] .
        have "\<not> (j - 1 = i \<and> f a = k)"
        proof
          assume h: "j - 1 = i \<and> f a = k"
          from runs_start_in [OF 2] obtain b where b: "(j, b) \<in> set xs" "f b = k" by auto
          then have "(i + 1, b) \<in> set xs" using h by auto
          from at_next [OF this] b h False show False by simp
        qed
        then show ?thesis using Cons.IH [OF s 2] x ij by auto
      qed
    qed
  qed
qed


section \<open>Numerals, and strings that \<open>lxml\<close> accepts\<close>

lemma digit_char_digit: "d < 10 \<Longrightarrow> digit_char d \<in> set ''0123456789''"
  unfolding digit_char_def by (rule nth_mem) simp

lemma str_nat_digits: "set (str_nat n) \<subseteq> set ''0123456789''"
proof (induction n rule: str_nat.induct)
  case (1 n)
  show ?case
  proof (cases "n < 10")
    case True
    then show ?thesis using digit_char_digit [of n] by (subst str_nat.simps) simp
  next
    case False
    have "n mod 10 < 10" by simp
    from digit_char_digit [OF this] 1 [OF False] False show ?thesis
      by (subst str_nat.simps) simp
  qed
qed

lemma str_nat_nonempty: "str_nat n \<noteq> []"
  by (subst str_nat.simps) simp

lemma xml_compatible_digits: "set s \<subseteq> set ''0123456789'' \<Longrightarrow> xml_compatible s"
proof -
  have "\<forall>c\<in>set ''0123456789''. xml_char c" by (simp add: xml_char_def)
  then show "set s \<subseteq> set ''0123456789'' \<Longrightarrow> xml_compatible s"
    unfolding xml_compatible_def list_all_iff by (rule_tac ballI) (rule bspec, assumption, erule subsetD)
qed

lemma xml_compatible_str_nat [simp]: "xml_compatible (str_nat n)"
  by (rule xml_compatible_digits) (rule str_nat_digits)

lemma xml_compatible_Cons [simp]: "xml_compatible (c # s) = (xml_char c \<and> xml_compatible s)"
  by (simp add: xml_compatible_def)

lemma xml_compatible_Nil [simp]: "xml_compatible []"
  by (simp add: xml_compatible_def)

lemma xml_compatible_append [simp]:
  "xml_compatible (s @ t) = (xml_compatible s \<and> xml_compatible t)"
  by (simp add: xml_compatible_def)

lemma xml_compatible_str_int [simp]: "xml_compatible (str_int i)"
  by (simp add: str_int_def xml_char_def)



lemma collect_Inr_iff: "collect xs = Inr ys \<longleftrightarrow> xs = map Inr ys"
proof (induction xs arbitrary: ys)
  case Nil
  then show ?case by auto
next
  case (Cons x xs)
  show ?case
  proof (cases x)
    case (Inl e)
    then show ?thesis by (cases ys) auto
  next
    case (Inr v)
    show ?thesis
    proof (cases "collect xs")
      case (Inl e)
      then have "xs \<noteq> map Inr zs" for zs using Cons.IH [of zs] by auto
      then show ?thesis using Inl Inr by (cases ys) auto
    next
      case r: (Inr vs)
      then have "xs = map Inr vs" using Cons.IH [of vs] by simp
      then show ?thesis using r Inr Cons.IH by (cases ys) auto
    qed
  qed
qed

lemma collect_Inl: "collect xs = Inl e \<Longrightarrow> Inl e \<in> set xs"
  by (induction xs) (auto split: sum.splits)


lemma make_rect_tag_eq:
  "make_rect_tag column len h cell_width cell_height bg_color =
     (if xml_compatible bg_color
      then Inr (Element ''rect''
                  [(''x'', str_int (column * cell_width)), (''y'', str_int h),
                   (''width'', str_int (len * cell_width)),
                   (''height'', str_int cell_height), (''fill'', bg_color)] None [])
      else Inl ValueError)"
  by (simp add: make_rect_tag_def etree_Element_def)


section \<open>Background rectangles and text runs\<close>

lemma sorted_items_strict:
  fixes screen_line :: "(int \<times> 'a) list"
  assumes "distinct (map fst screen_line)"
  shows "sorted_wrt (<) (map fst (sorted_items screen_line))"
proof -
  have "distinct screen_line" and "inj_on fst (set screen_line)"
    using assms by (auto simp add: distinct_map)
  then have "distinct (map fst (sorted_items screen_line))"
    by (simp add: distinct_map sorted_items_def)
  moreover have "sorted (map fst (sorted_items screen_line))"
    by (simp add: sorted_items_def sorted_sort_key)
  ultimately show ?thesis by (simp only: strict_sorted_iff)
qed

lemma set_sorted_items [simp]: "set (sorted_items screen_line) = set screen_line"
  by (simp add: sorted_items_def)

lemma filter_strict:
  fixes xs :: "(int \<times> 'a) list"
  assumes "sorted_wrt (<) (map fst xs)"
  shows "sorted_wrt (<) (map fst (filter P xs))"
  using assms by (simp add: sorted_wrt_map sorted_wrt_filter)

text \<open>
  Claim C4. Every rectangle that the background builder emits for a line covers a run of
  columns that all hold a cell with the rectangle's fill colour, which is not the default
  background: no cell with the default background lies under a rectangle. The run is
  maximal: the column before it and the column after it hold no cell of that colour.
  A line is a dictionary, so its columns are distinct. The builder emits nothing and
  raises \<open>ValueError\<close> only when a cell with another background than the default has a
  colour that is not compatible with XML.
\<close>

theorem background_rects:
  assumes "distinct (map fst screen_line)"
  shows "case render_line_bg_colors screen_line h cell_height cell_width default_bg_color of
           Inl e \<Rightarrow>
             e = ValueError \<and>
             (\<exists>c cell. map_of screen_line c = Some cell \<and>
                background_color cell \<noteq> default_bg_color \<and>
                \<not> xml_compatible (background_color cell))
         | Inr rects \<Rightarrow>
             \<forall>r\<in>set rects. \<exists>column len bg.
               make_rect_tag column (int len) h cell_width cell_height bg = Inr r \<and>
               0 < len \<and> bg \<noteq> default_bg_color \<and>
               (\<forall>c. column \<le> c \<and> c < column + int len \<longrightarrow>
                    (\<exists>cell. map_of screen_line c = Some cell \<and> background_color cell = bg)) \<and>
               \<not> (\<exists>cell. map_of screen_line (column - 1) = Some cell \<and>
                      background_color cell = bg) \<and>
               \<not> (\<exists>cell. map_of screen_line (column + int len) = Some cell \<and>
                      background_color cell = bg)"
proof -
  define xs where
    "xs = filter (\<lambda>(column, cell). background_color cell \<noteq> default_bg_color)
            (sorted_items screen_line)"
  define mk where
    "mk = (\<lambda>run :: (int \<times> string) \<times> (int \<times> CharacterCell) list.
             make_rect_tag (fst (fst run)) (int (length (snd run))) h cell_width cell_height
               (snd (fst run)))"
  have s: "sorted_wrt (<) (map fst xs)"
    unfolding xs_def by (rule filter_strict [OF sorted_items_strict [OF assms(1)]])
  have g: "groupby (consecutive_keys background_color None xs) = runs background_color xs"
    by (rule groupby_consecutive_runs [OF s])
  have mem: "(c, cell) \<in> set xs \<longleftrightarrow>
      map_of screen_line c = Some cell \<and> background_color cell \<noteq> default_bg_color" for c cell
    using assms(1) by (auto simp add: xs_def)
  have mk_eq: "(\<lambda>((column, attributes), grp).
      make_rect_tag column (int (length grp)) h cell_width cell_height attributes) = mk"
    by (auto simp add: mk_def fun_eq_iff)
  have ren: "render_line_bg_colors screen_line h cell_height cell_width default_bg_color =
      collect (map mk (runs background_color xs))"
    unfolding render_line_bg_colors_def Let_def xs_def [symmetric] g mk_eq ..
  show ?thesis
  proof (cases "render_line_bg_colors screen_line h cell_height cell_width default_bg_color")
    case (Inl e)
    then have "collect (map mk (runs background_color xs)) = Inl e" using ren by simp
    from collect_Inl [OF this] obtain run where
      run: "run \<in> set (runs background_color xs)" and m: "mk run = Inl e" by auto
    obtain column bg grp where run_eq: "run = ((column, bg), grp)" by (cases run) auto
    from m have e: "e = ValueError" and nc: "\<not> xml_compatible bg"
      by (auto simp add: mk_def run_eq make_rect_tag_eq split: if_splits)
    from runs_start_in [OF run [unfolded run_eq]] obtain a where
      "(column, a) \<in> set xs" "background_color a = bg" by auto
    then have "map_of screen_line column = Some a \<and> background_color a \<noteq> default_bg_color \<and>
        \<not> xml_compatible (background_color a)"
      using mem nc by simp
    then show ?thesis unfolding Inl using e by auto
  next
    case (Inr rects)
    then have all: "map mk (runs background_color xs) = map Inr rects"
      using ren by (simp add: collect_Inr_iff)
    have "\<exists>column len bg.
        make_rect_tag column (int len) h cell_width cell_height bg = Inr r \<and>
        0 < len \<and> bg \<noteq> default_bg_color \<and>
        (\<forall>c. column \<le> c \<and> c < column + int len \<longrightarrow>
             (\<exists>cell. map_of screen_line c = Some cell \<and> background_color cell = bg)) \<and>
        \<not> (\<exists>cell. map_of screen_line (column - 1) = Some cell \<and> background_color cell = bg) \<and>
        \<not> (\<exists>cell. map_of screen_line (column + int len) = Some cell \<and>
               background_color cell = bg)"
      if "r \<in> set rects" for r
    proof -
      from that have "Inr r \<in> set (map Inr rects :: (error + element) list)" by simp
      then have "Inr r \<in> set (map mk (runs background_color xs))" unfolding all .
      then obtain run where
        run0: "run \<in> set (runs background_color xs)" and m: "mk run = Inr r" by auto
      obtain column bg grp where run_eq: "run = ((column, bg), grp)" by (cases run) auto
      note run = run0 [unfolded run_eq]
      from m have r: "make_rect_tag column (int (length grp)) h cell_width cell_height bg = Inr r"
        by (simp add: mk_def run_eq)
      from runs_props [OF run] have ne: "0 < length grp" by simp
      from runs_start_in [OF run] obtain a where "(column, a) \<in> set xs" "background_color a = bg"
        by auto
      then have bg: "bg \<noteq> default_bg_color" using mem by auto
      have cover: "\<exists>cell. map_of screen_line c = Some cell \<and> background_color cell = bg"
        if "column \<le> c \<and> c < column + int (length grp)" for c
        using runs_covers [OF run, of c] that mem by auto
      from runs_maximal [OF s run] bg mem
      have "\<not> (\<exists>cell. map_of screen_line (column - 1) = Some cell \<and> background_color cell = bg)"
        and "\<not> (\<exists>cell. map_of screen_line (column + int (length grp)) = Some cell \<and>
                    background_color cell = bg)"
        by auto
      with r ne bg cover show ?thesis by blast
    qed
    then show ?thesis unfolding Inr by simp
  qed
qed

theorem background_rects_witness:
  "distinct (map fst example_line) \<and>
   render_line_bg_colors example_line 17 17 8 ''black'' =
     Inr [Element ''rect''
            [(''x'', ''0''), (''y'', ''17''), (''width'', ''16''), (''height'', ''17''),
             (''fill'', ''red'')] None [],
          Element ''rect''
            [(''x'', ''32''), (''y'', ''17''), (''width'', ''8''), (''height'', ''17''),
             (''fill'', ''red'')] None []] \<and>
   (\<exists>column len bg.
      make_rect_tag column (int len) 17 8 17 bg =
        Inr (Element ''rect''
               [(''x'', ''0''), (''y'', ''17''), (''width'', ''16''), (''height'', ''17''),
                (''fill'', ''red'')] None []) \<and>
      0 < len \<and> bg \<noteq> ''black'' \<and>
      (\<forall>c. column \<le> c \<and> c < column + int len \<longrightarrow>
           (\<exists>cell. map_of example_line c = Some cell \<and> background_color cell = bg)) \<and>
      \<not> (\<exists>cell. map_of example_line (column - 1) = Some cell \<and> background_color cell = bg) \<and>
      \<not> (\<exists>cell. map_of example_line (column + int len) = Some cell \<and>
             background_color cell = bg))"
proof -
  have d: "distinct (map fst example_line)" by code_simp
  have e: "render_line_bg_colors example_line 17 17 8 ''black'' =
     Inr [Element ''rect''
            [(''x'', ''0''), (''y'', ''17''), (''width'', ''16''), (''height'', ''17''),
             (''fill'', ''red'')] None [],
          Element ''rect''
            [(''x'', ''32''), (''y'', ''17''), (''width'', ''8''), (''height'', ''17''),
             (''fill'', ''red'')] None []]"
    by code_simp
  from background_rects
    [OF d, where h = 17 and cell_height = 17 and cell_width = 8 and default_bg_color = "''black''"]
    d e show ?thesis
    unfolding e by simp
qed













section \<open>The toggle directive\<close>

lemma split_on_none: "c \<notin> set s \<Longrightarrow> split_on c s = [s]"
  by (induction s) auto

lemma split_on_first: "c \<notin> set a \<Longrightarrow> split_on c (a @ c # b) = a # split_on c b"
  by (induction a) (auto split: list.splits)

lemma py_strip_plain:
  assumes "s \<noteq> []" and "\<not> py_isspace (hd s)" and "\<not> py_isspace (last s)"
  shows "py_strip s = s"
proof -
  have "dropWhile py_isspace s = s" using assms(1,2) by (cases s) auto
  moreover have "dropWhile py_isspace (rev s) = rev s"
    using assms(1,3) by (cases "rev s") (auto simp add: last_rev hd_rev)
  ultimately show ?thesis by (simp add: py_strip_def)
qed

lemma digit_not_space: "c \<in> set ''0123456789'' \<Longrightarrow> \<not> py_isspace c"
  by (auto simp add: py_isspace_def)

lemma begin_triggers_positive:
  assumes "0 < t"
  shows "begin_triggers (begin_time_of t) =
           [str_int t @ ''ms'', LAST_ANIMATION_ID @ ''.end+'' @ str_int t @ ''ms'']"
proof -
  define n where "n = str_nat (nat t)"
  have st: "str_int t = n" using assms by (simp add: str_int_def n_def)
  have dig: "set n \<subseteq> set ''0123456789''" unfolding n_def by (rule str_nat_digits)
  have ne: "n \<noteq> []" unfolding n_def by (rule str_nat_nonempty)
  have semi: "CHR '';'' \<notin> set n" using dig by auto
  have b: "begin_time_of t = (n @ ''ms'') @ CHR '';'' # ('' anim_last.end+'' @ n @ ''ms'')"
    using assms by (simp add: begin_time_of_def st LAST_ANIMATION_ID_def)
  have e1: "split_on CHR '';'' ((n @ ''ms'') @ CHR '';'' # ('' anim_last.end+'' @ n @ ''ms'')) =
      (n @ ''ms'') # split_on CHR '';'' ('' anim_last.end+'' @ n @ ''ms'')"
    by (rule split_on_first) (use semi in simp)
  have e2: "split_on CHR '';'' ('' anim_last.end+'' @ n @ ''ms'') =
      ['' anim_last.end+'' @ n @ ''ms'']"
    by (rule split_on_none) (use semi in simp)
  have s1:
    "split_on CHR '';'' (begin_time_of t) = [n @ ''ms'', '' anim_last.end+'' @ n @ ''ms'']"
    by (subst b, subst e1, subst e2) (rule refl)
  have "hd n \<in> set n" using ne by (rule hd_in_set)
  with dig have "hd n \<in> set ''0123456789''" by (rule subsetD)
  then have "\<not> py_isspace (hd n)" by (rule digit_not_space)
  then have p1: "py_strip (n @ ''ms'') = n @ ''ms''"
    using ne by (intro py_strip_plain) (simp_all add: py_isspace_def)
  have "py_strip ('' anim_last.end+'' @ n @ ''ms'') = ''anim_last.end+'' @ n @ ''ms''"
    by (simp add: py_strip_def py_isspace_def)
  then show ?thesis by (simp add: begin_triggers_def s1 p1 st LAST_ANIMATION_ID_def)
qed

lemma begin_triggers_zero:
  "begin_triggers (begin_time_of 0) = [''0ms'', LAST_ANIMATION_ID @ ''.end'']"
  by code_simp


text \<open>
  Claim C1. The toggle directive of the group of a bucket is the last child of the
  group, and its \<open>begin\<close> attribute lists exactly two triggers: for time 0 they are
  \<open>0ms\<close> and the end of the loop anchor; for a positive time \<open>t\<close> they are
  \<open>t\<close> ms and the end of the loop anchor plus \<open>t\<close> ms.
\<close>

theorem toggle_triggers:
  assumes "make_animated_group records t d cell_height cell_width default_bg_color defs =
             Inr (agroup, new_defs)"
  shows "children agroup \<noteq> [] \<and> last (children agroup) = animation_tag t d \<and>
         map_of (attrib (last (children agroup))) ''begin'' = Some (begin_time_of t) \<and>
         (t = 0 \<longrightarrow>
            begin_triggers (begin_time_of t) = [''0ms'', LAST_ANIMATION_ID @ ''.end'']) \<and>
         (0 < t \<longrightarrow>
            begin_triggers (begin_time_of t) =
              [str_int t @ ''ms'', LAST_ANIMATION_ID @ ''.end+'' @ str_int t @ ''ms''])"
proof -
  from assms obtain cs where g: "agroup = Element ''g'' [(''display'', ''none'')] None
      (cs @ [animation_tag t d])"
    by (auto simp add: make_animated_group_def split: sum.splits)
  have "map_of (attrib (animation_tag t d)) ''begin'' = Some (begin_time_of t)"
    by (simp add: animation_tag_def)
  then show ?thesis
    using g begin_triggers_zero begin_triggers_positive [of t] by auto
qed

theorem toggle_triggers_witness:
  "\<exists>agroup new_defs.
     make_animated_group (tl (tl example_events)) 100 50 17 8 ''black'' [] =
       Inr (agroup, new_defs) \<and>
     map_of (attrib (last (children agroup))) ''begin'' = Some ''100ms; anim_last.end+100ms'' \<and>
     begin_triggers ''100ms; anim_last.end+100ms'' = [''100ms'', ''anim_last.end+100ms'']"
proof -
  have "\<not> isl (make_animated_group (tl (tl example_events)) 100 50 17 8 ''black'' [])"
    by code_simp
  then obtain agroup new_defs where
    m: "make_animated_group (tl (tl example_events)) 100 50 17 8 ''black'' [] =
       Inr (agroup, new_defs)"
    by (cases "make_animated_group (tl (tl example_events)) 100 50 17 8 ''black'' []") auto
  have b: "begin_time_of 100 = ''100ms; anim_last.end+100ms''" by code_simp
  have s: "str_int 100 = ''100''" by code_simp
  from toggle_triggers [OF m] show ?thesis
    unfolding b s LAST_ANIMATION_ID_def using m by auto
qed


section \<open>Documents\<close>







subsection \<open>\<open>find\<close> after the content of an element has been replaced\<close>







section \<open>The rendered document\<close>

lemma has_infix_sep:
  assumes "c \<noteq> CHR '']''" and "c \<noteq> CHR ''>''"
  shows "has_infix '']]>'' (a @ c # b) = (has_infix '']]>'' a \<or> has_infix '']]>'' b)"
proof (induction a)
  case Nil
  then show ?case using assms by (simp add: startswith_def has_infix.simps)
next
  case (Cons x a)
  have "startswith (x # a @ c # b) '']]>'' = startswith (x # a) '']]>''"
  proof (cases a)
    case Nil
    then show ?thesis using assms by (auto simp add: startswith_def)
  next
    case outer: (Cons y a')
    show ?thesis
    proof (cases a')
      case Nil
      then show ?thesis using assms outer by (auto simp add: startswith_def)
    next
      case (Cons z a'')
      then show ?thesis using outer by (simp add: startswith_def)
    qed
  qed
  then show ?case using Cons by (simp add: has_infix.simps)
qed

lemma has_infix_plain: "CHR '']'' \<notin> set s \<Longrightarrow> \<not> has_infix '']]>'' s"
  by (induction s) (auto simp add: startswith_def has_infix.simps)

lemma has_infix_str_int [simp]: "\<not> has_infix '']]>'' (str_int i)"
proof -
  have "CHR '']'' \<notin> set (str_nat n)" for n using str_nat_digits [of n] by auto
  then have "CHR '']'' \<notin> set (str_int i)" by (simp add: str_int_def)
  then show ?thesis by (rule has_infix_plain)
qed

lemma has_infix_literal [simp]:
  "c \<noteq> CHR '']'' \<Longrightarrow> has_infix '']]>'' (c # s) = has_infix '']]>'' s"
  by (simp add: startswith_def has_infix.simps)

lemma has_infix_Nil [simp]: "\<not> has_infix '']]>'' []"
  by (simp add: has_infix.simps)

lemma has_infix_field [simp]:
  "c \<noteq> CHR '']'' \<Longrightarrow> c \<noteq> CHR ''>'' \<Longrightarrow>
     has_infix '']]>'' (a @ c # b) = (has_infix '']]>'' a \<or> has_infix '']]>'' b)"
  by (rule has_infix_sep)














section \<open>The definition store\<close>






















lemma groupby_concat: "concat (map snd (groupby kxs)) = map snd kxs"
proof (induction kxs)
  case Nil
  then show ?case by simp
next
  case (Cons kx kxs)
  obtain k x where kx: "kx = (k, x)" by (cases kx)
  show ?case using Cons kx by (cases "groupby kxs") (auto split: if_splits)
qed










lemma digit_char_inj:
  assumes "a < 10" and "b < 10" and "digit_char a = digit_char b"
  shows "a = b"
proof -
  have "distinct ''0123456789''" by simp
  moreover have "a < length ''0123456789''" "b < length ''0123456789''" using assms by simp_all
  ultimately show ?thesis using assms(3) unfolding digit_char_def
    by (simp only: nth_eq_iff_index_eq)
qed

lemma str_nat_length_one: "length (str_nat n) = 1 \<longleftrightarrow> n < 10"
proof (cases "n < 10")
  case True
  then show ?thesis by (subst str_nat.simps) simp
next
  case False
  moreover have "str_nat (n div 10) \<noteq> []" by (rule str_nat_nonempty)
  ultimately show ?thesis by (subst str_nat.simps) (cases "str_nat (n div 10)", auto)
qed

lemma str_nat_inj: "str_nat n = str_nat m \<Longrightarrow> n = m"
proof (induction n arbitrary: m rule: str_nat.induct)
  case (1 n)
  show ?case
  proof (cases "n < 10")
    case True
    then have "length (str_nat m) = 1" using 1(2) str_nat_length_one [of n] by simp
    then have m: "m < 10" using str_nat_length_one [of m] by simp
    have "[digit_char n] = [digit_char m]"
      using 1(2) True m by (subst (asm) str_nat.simps, subst (asm) (2) str_nat.simps) simp
    then show ?thesis using digit_char_inj [OF True m] by simp
  next
    case False
    then have "length (str_nat m) \<noteq> 1" using 1(2) str_nat_length_one [of n] by simp
    then have m: "\<not> m < 10" using str_nat_length_one [of m] by simp
    have "str_nat (n div 10) @ [digit_char (n mod 10)] =
        str_nat (m div 10) @ [digit_char (m mod 10)]"
      using 1(2) False m by (subst (asm) str_nat.simps, subst (asm) (2) str_nat.simps) simp
    then have a: "str_nat (n div 10) = str_nat (m div 10)"
      and b: "digit_char (n mod 10) = digit_char (m mod 10)" by simp_all
    from 1(1) [OF False a] have "n div 10 = m div 10" .
    moreover have "n mod 10 = m mod 10" using b by (intro digit_char_inj) simp_all
    ultimately show ?thesis by (metis div_mult_mod_eq)
  qed
qed

lemma counter_id_inj: "counter_id n = counter_id m \<Longrightarrow> n = m"
proof -
  assume "counter_id n = counter_id m"
  then have "str_nat (nat (int n + 1)) = str_nat (nat (int m + 1))"
    by (simp add: counter_id_def str_int_def)
  from str_nat_inj [OF this] show "n = m" by simp
qed








lemma line_events_length: "length (line_events rest) \<le> length rest"
  by (induction rest rule: line_events.induct) auto


lemma line_events_map [simp]: "line_events (map LineEvent events) = events"
  by (induction events) auto







section \<open>The loop anchor\<close>


































end
